theory Spec2Isabelle
  imports Main
begin

section \<open>Data model\<close>

text \<open>
  The synchronisation engine of \<^verbatim>\<open>src/lib/movies/api.ts\<close> (the version exporting
  \<^verbatim>\<open>syncMovies\<close> and \<^verbatim>\<open>getMovies\<close>) together with the \<^verbatim>\<open>Movie\<close> schema of
  \<^verbatim>\<open>src/lib/movies/types.ts\<close> (three string fields).

  A parsed JSON value. The schema only inspects strings, arrays and objects; the
  numeric payload is never looked at, so numbers carry an integer. An object is the
  association list of its own properties, each key once.
\<close>

datatype json =
    JNull
  | JBool bool
  | JNum int
  | JStr string
  | JArr "json list"
  | JObj "(string \<times> json) list"

record Movie =
  title :: string
  imdb_id :: string
  poster_url :: string

text \<open>
  Every \<^verbatim>\<open>throw\<close> and rejected promise of the source is a value:
  \<^item> \<open>SyntaxError\<close>: \<^verbatim>\<open>object.json()\<close> on a blob that is not JSON;
  \<^item> \<open>ZodError\<close>: \<^verbatim>\<open>z.array(Movie).parse\<close> or \<^verbatim>\<open>z.iso.date().parse\<close> rejects;
  \<^item> \<open>FetchError\<close>: \<^verbatim>\<open>fetch\<close> rejects (network error, the one second timeout);
  \<^item> \<open>InvalidLastSync\<close>: \<^verbatim>\<open>new Error("Invalid last sync date")\<close>.
\<close>

datatype error = SyntaxError | ZodError | FetchError | InvalidLastSync

text \<open>
  A \<^verbatim>\<open>Date\<close> is its time value: milliseconds since 1970-01-01T00:00Z, an \<open>int\<close>.
  The worker runs with the local time zone UTC, so \<^verbatim>\<open>setDate(getDate() + k)\<close> adds
  \<open>k\<close> days of 86400000 ms, and the calendar day of a date \<open>t\<close> is \<open>t div DAY\<close>.
\<close>

definition DAY :: int where
  "DAY = 86400000"

text \<open>
  The text of a stored object, classified by what its two readers make of it:
  \<^item> \<open>JsonText j\<close>: \<^verbatim>\<open>JSON.parse\<close> succeeds with \<open>j\<close> (such a text is never an ISO date);
  \<^item> \<open>DateText n\<close>: the text \<^verbatim>\<open>YYYY-MM-DD\<close> of the calendar day \<open>n\<close> days after
    1970-01-01, which \<^verbatim>\<open>z.iso.date()\<close> accepts and \<^verbatim>\<open>new Date(text)\<close> reads as
    midnight UTC of that day (such a text is never JSON);
  \<^item> \<open>OtherText\<close>: anything else.
\<close>

datatype blob = JsonText json | DateText int | OtherText

text \<open>
  What \<^verbatim>\<open>fetch\<close> does for the URL of a date: the promise rejects, or a response
  arrives with a status and a body that either parses as JSON or does not.
\<close>

datatype body = NotJson | JsonBody json

datatype outcome = Rejected | Response nat body

type_synonym remote = "int \<Rightarrow> outcome"

text \<open>
  The I/O a run performs, in order, and the bucket (an R2 bucket: keys to objects).
  Bucket operations themselves are taken to succeed.
\<close>

datatype event = Get string | Put string blob | Fetch int

record world =
  bucket :: "string \<rightharpoonup> blob"
  trace :: "event list"

section \<open>Schema validation and serialisation\<close>

text \<open>\<^verbatim>\<open>z.string()\<close>: a missing key reads as undefined and is rejected like a non-string.\<close>

fun zString :: "json option \<Rightarrow> string option" where
  "zString (Some (JStr s)) = Some s"
| "zString _ = None"

text \<open>
  \<^verbatim>\<open>z.object({title, imdb_id, poster_url})\<close>: the input must be an object with the three
  string fields; unknown keys are stripped from the result.
\<close>

fun zMovie :: "json \<Rightarrow> Movie option" where
  "zMovie (JObj fs) =
     (case zString (map_of fs ''title'') of
        None \<Rightarrow> None
      | Some t \<Rightarrow>
          (case zString (map_of fs ''imdb_id'') of
             None \<Rightarrow> None
           | Some i \<Rightarrow>
               (case zString (map_of fs ''poster_url'') of
                  None \<Rightarrow> None
                | Some p \<Rightarrow> Some \<lparr>title = t, imdb_id = i, poster_url = p\<rparr>)))"
| "zMovie _ = None"

fun zMovies :: "json list \<Rightarrow> Movie list option" where
  "zMovies [] = Some []"
| "zMovies (j # js) =
     (case zMovie j of
        None \<Rightarrow> None
      | Some m \<Rightarrow> (case zMovies js of None \<Rightarrow> None | Some ms \<Rightarrow> Some (m # ms)))"

text \<open>\<^verbatim>\<open>z.array(Movie).parse(data)\<close>\<close>

fun zMovieArray :: "json \<Rightarrow> error + Movie list" where
  "zMovieArray (JArr js) = (case zMovies js of None \<Rightarrow> Inl ZodError | Some ms \<Rightarrow> Inr ms)"
| "zMovieArray _ = Inl ZodError"

text \<open>\<^verbatim>\<open>JSON.stringify(movies)\<close>, given by the value its text parses to.\<close>

definition movieJson :: "Movie \<Rightarrow> json" where
  "movieJson m =
     JObj [(''title'', JStr (title m)), (''imdb_id'', JStr (imdb_id m)),
           (''poster_url'', JStr (poster_url m))]"

definition stringify :: "Movie list \<Rightarrow> blob" where
  "stringify movies = JsonText (JArr (map movieJson movies))"

section \<open>The stores\<close>

definition moviesBucketKey :: string where
  "moviesBucketKey = ''movies.json''"

definition lastSyncedBucketKey :: string where
  "lastSyncedBucketKey = ''last_synced.txt''"

text \<open>Every operation on the outside world is recorded at the end of the trace.\<close>

definition logged :: "event \<Rightarrow> world \<Rightarrow> world" where
  "logged e w = w\<lparr>trace := trace w @ [e]\<rparr>"

definition bucket_get :: "string \<Rightarrow> world \<Rightarrow> blob option \<times> world" where
  "bucket_get k w = (bucket w k, logged (Get k) w)"

definition bucket_put :: "string \<Rightarrow> blob \<Rightarrow> world \<Rightarrow> world" where
  "bucket_put k b w = logged (Put k b) (w\<lparr>bucket := (bucket w)(k \<mapsto> b)\<rparr>)"

definition setMovies :: "Movie list \<Rightarrow> world \<Rightarrow> world" where
  "setMovies movies w = bucket_put moviesBucketKey (stringify movies) w"

definition getMovies :: "world \<Rightarrow> (error + Movie list) \<times> world" where
  "getMovies w =
     (case bucket_get moviesBucketKey w of
        (None, w1) \<Rightarrow> (Inr [], setMovies [] w1)
      | (Some (JsonText j), w1) \<Rightarrow> (zMovieArray j, w1)
      | (Some _, w1) \<Rightarrow> (Inl SyntaxError, w1))"

text \<open>
  \<^verbatim>\<open>date.toISOString().split("T")[0]\<close> is the UTC calendar day of the date. (The guard
  on an empty date string cannot fire: the text before the \<^verbatim>\<open>T\<close> is never empty.)
\<close>

definition setLastSynced :: "int \<Rightarrow> world \<Rightarrow> world" where
  "setLastSynced date w = bucket_put lastSyncedBucketKey (DateText (date div DAY)) w"

text \<open>\<^verbatim>\<open>new Date(2019, 11, 2)\<close>: 2 December 2019 is day 18232 after 1970-01-01.\<close>

definition getEarliestSync :: int where
  "getEarliestSync = 18232 * DAY"

definition getLastSynced :: "world \<Rightarrow> (error + int) \<times> world" where
  "getLastSynced w =
     (case bucket_get lastSyncedBucketKey w of
        (None, w1) \<Rightarrow>
          (let date = getEarliestSync - DAY
           in (Inr date, setLastSynced date w1))
      | (Some (DateText n), w1) \<Rightarrow> (Inr (n * DAY), w1)
      | (Some _, w1) \<Rightarrow> (Inl ZodError, w1))"

section \<open>The snapshot fetcher\<close>

text \<open>\<^verbatim>\<open>response.ok\<close>\<close>

definition ok :: "nat \<Rightarrow> bool" where
  "ok status \<longleftrightarrow> 200 \<le> status \<and> status \<le> 299"

text \<open>
  What \<^verbatim>\<open>fetchMovies\<close> makes of the outcome of its \<^verbatim>\<open>fetch\<close>: \<open>Inr None\<close> is the
  source's \<^verbatim>\<open>null\<close>, \<open>Inr (Some ms)\<close> a returned array.
\<close>

fun readResponse :: "outcome \<Rightarrow> error + Movie list option" where
  "readResponse Rejected = Inl FetchError"
| "readResponse (Response status b) =
     (if \<not> ok status then
        (if status = 404 then Inr (Some []) else Inr None)
      else
        (case b of
           NotJson \<Rightarrow> Inr (Some [])
         | JsonBody data \<Rightarrow>
             (case zMovieArray data of Inl e \<Rightarrow> Inl e | Inr ms \<Rightarrow> Inr (Some ms))))"

text \<open>
  The URL is a function of the date, so the remote source is given per date.
\<close>

definition fetchMovies :: "remote \<Rightarrow> int \<Rightarrow> world \<Rightarrow> (error + Movie list option) \<times> world" where
  "fetchMovies r date w = (readResponse (r date), logged (Fetch date) w)"

section \<open>The merge engine\<close>

definition appendUnique :: "Movie list \<Rightarrow> Movie \<Rightarrow> Movie list" where
  "appendUnique movies newMovie =
     (case find (\<lambda>movie. imdb_id movie = imdb_id newMovie) movies of
        Some existingMovie \<Rightarrow> movies
      | None \<Rightarrow> movies @ [newMovie])"

section \<open>The pending window\<close>

text \<open>\<open>now\<close> is the value of the clock read by \<^verbatim>\<open>new Date()\<close>.\<close>

definition getLatestSync :: "int \<Rightarrow> int" where
  "getLatestSync now = now - DAY"

definition getSyncUntil :: "int \<Rightarrow> int \<Rightarrow> error + int" where
  "getSyncUntil now lastSynced =
     (let latestSync = getLatestSync now in
      if lastSynced > latestSync then Inl InvalidLastSync
      else
        (let syncUntil = lastSynced + 7 * DAY in
         if syncUntil > latestSync then Inr latestSync else Inr syncUntil))"

function getDateRange :: "int \<Rightarrow> int \<Rightarrow> int list" where
  "getDateRange date until =
     (if date \<le> until then date # getDateRange (date + DAY) until else [])"
  by pat_completeness auto
termination
  by (relation "measure (\<lambda>(date, until). nat (until + 1 - date))") (auto simp: DAY_def)

declare getDateRange.simps [simp del]

text \<open>
  \<^verbatim>\<open>lastSynced === syncUntil\<close> compares two \<^verbatim>\<open>Date\<close> objects by reference, and
  \<^verbatim>\<open>getSyncUntil\<close> always returns an object it has just allocated: the test is never
  true, and the early \<^verbatim>\<open>return []\<close> is not a branch of the model.
\<close>

definition getNextSyncDates :: "int \<Rightarrow> world \<Rightarrow> (error + int list) \<times> world" where
  "getNextSyncDates now w =
     (case getLastSynced w of
        (Inl e, w1) \<Rightarrow> (Inl e, w1)
      | (Inr lastSynced, w1) \<Rightarrow>
          (case getSyncUntil now lastSynced of
             Inl e \<Rightarrow> (Inl e, w1)
           | Inr syncUntil \<Rightarrow>
               (let syncFrom = lastSynced + DAY
                in (Inr (getDateRange syncFrom syncUntil), w1))))"

section \<open>The orchestrator\<close>

text \<open>The body of the \<^verbatim>\<open>for (const date of dates)\<close> loop, with the collection threaded.\<close>

fun syncLoop :: "remote \<Rightarrow> int list \<Rightarrow> Movie list \<Rightarrow> world \<Rightarrow> (error + Movie list) \<times> world" where
  "syncLoop r [] movies w = (Inr movies, w)"
| "syncLoop r (date # dates) movies w =
     (case fetchMovies r date w of
        (Inl e, w1) \<Rightarrow> (Inl e, w1)
      | (Inr None, w1) \<Rightarrow> syncLoop r dates movies w1
      | (Inr (Some newMovies), w1) \<Rightarrow>
          (let previousCount = length movies;
               movies' = foldl appendUnique movies newMovies;
               w2 = (if length movies' > previousCount then setMovies movies' w1 else w1)
           in syncLoop r dates movies' (setLastSynced date w2)))"

definition syncMovies :: "remote \<Rightarrow> int \<Rightarrow> world \<Rightarrow> (error + unit) \<times> world" where
  "syncMovies r now w =
     (case getNextSyncDates now w of
        (Inl e, w1) \<Rightarrow> (Inl e, w1)
      | (Inr dates, w1) \<Rightarrow>
          if length dates = 0 then (Inr (), w1)
          else
            (case getMovies w1 of
               (Inl e, w2) \<Rightarrow> (Inl e, w2)
             | (Inr movies, w2) \<Rightarrow>
                 (case syncLoop r dates movies w2 of
                    (Inl e, w3) \<Rightarrow> (Inl e, w3)
                  | (Inr _, w3) \<Rightarrow> (Inr (), w3))))"

text \<open>Successive scheduled runs, each with its own remote source and clock.\<close>

fun syncRuns :: "(remote \<times> int) list \<Rightarrow> world \<Rightarrow> world" where
  "syncRuns [] w = w"
| "syncRuns ((r, now) # rs) w = syncRuns rs (snd (syncMovies r now w))"

section \<open>Auxiliary definitions\<close>

text \<open>
  The world after a day whose fetch returned the array \<open>new\<close> has been processed from
  the collection \<open>m\<close>: the fetch, the conditional write of the collection, the write of
  the checkpoint.
\<close>

definition afterDay :: "int \<Rightarrow> Movie list \<Rightarrow> Movie list \<Rightarrow> world \<Rightarrow> world" where
  "afterDay d m new w =
     setLastSynced d
       (if length (foldl appendUnique m new) > length m
        then setMovies (foldl appendUnique m new) (logged (Fetch d) w)
        else logged (Fetch d) w)"

text \<open>Concrete inputs: a bucket from its objects, a remote from a table of days, a clock.\<close>

definition worldOf :: "(string \<times> blob) list \<Rightarrow> world" where
  "worldOf objects = \<lparr>bucket = map_of objects, trace = []\<rparr>"

definition remoteOf :: "(int \<times> outcome) list \<Rightarrow> remote" where
  "remoteOf days date =
     (case map_of days (date div DAY) of
        Some out \<Rightarrow> out
      | None \<Rightarrow> Response 404 NotJson)"

definition noon :: "int \<Rightarrow> int" where
  "noon n = n * DAY + 43200000"

definition mA :: Movie where
  "mA = \<lparr>title = ''A'', imdb_id = ''tt1'', poster_url = ''a.jpg''\<rparr>"

definition mA' :: Movie where
  "mA' = \<lparr>title = ''A again'', imdb_id = ''tt1'', poster_url = ''a2.jpg''\<rparr>"

definition mB :: Movie where
  "mB = \<lparr>title = ''B'', imdb_id = ''tt2'', poster_url = ''b.jpg''\<rparr>"

section \<open>Basic facts\<close>

lemma DAY_pos: "0 < DAY"
  by (simp add: DAY_def)

lemma day_div [simp]: "(c * DAY) div DAY = c"
  using DAY_pos by simp

lemma day_floor: "(t div DAY) * DAY \<le> t"
proof -
  have "t = (t div DAY) * DAY + t mod DAY" by simp
  moreover have "0 \<le> t mod DAY" using DAY_pos by simp
  ultimately show ?thesis by linarith
qed

lemma day_ceil: "t < (t div DAY) * DAY + DAY"
proof -
  have "t = (t div DAY) * DAY + t mod DAY" by simp
  moreover have "t mod DAY < DAY" using DAY_pos by simp
  ultimately show ?thesis by linarith
qed

lemma day_mono: "c \<le> c' \<Longrightarrow> c * DAY \<le> c' * DAY"
  using DAY_pos by (simp add: mult_right_mono)

lemma day_lt_iff: "t < c * DAY \<longleftrightarrow> t div DAY < c"
proof
  assume "t < c * DAY"
  show "t div DAY < c"
  proof (rule ccontr)
    assume "\<not> t div DAY < c"
    then have "c * DAY \<le> (t div DAY) * DAY" by (simp add: day_mono)
    with day_floor [of t] \<open>t < c * DAY\<close> show False by linarith
  qed
next
  assume "t div DAY < c"
  then have "(t div DAY + 1) * DAY \<le> c * DAY" by (intro day_mono) simp
  with day_ceil [of t] show "t < c * DAY" by (simp add: algebra_simps)
qed

lemma keys_distinct [simp]:
  "moviesBucketKey \<noteq> lastSyncedBucketKey" "lastSyncedBucketKey \<noteq> moviesBucketKey"
  by (simp_all add: moviesBucketKey_def lastSyncedBucketKey_def)

lemma bucket_logged [simp]: "bucket (logged e w) = bucket w"
  by (simp add: logged_def)

lemma trace_logged [simp]: "trace (logged e w) = trace w @ [e]"
  by (simp add: logged_def)

lemma bucket_bucket_put [simp]: "bucket (bucket_put k b w) = (bucket w)(k \<mapsto> b)"
  by (simp add: bucket_put_def)

lemma trace_bucket_put [simp]: "trace (bucket_put k b w) = trace w @ [Put k b]"
  by (simp add: bucket_put_def)

section \<open>Facts about the merge engine\<close>

lemma find_None_imdb:
  "find (\<lambda>movie. imdb_id movie = i) movies = None \<longleftrightarrow> i \<notin> imdb_id ` set movies"
  by (auto simp: find_None_iff)

lemma appendUnique_distinct:
  "distinct (map imdb_id ms) \<Longrightarrow> distinct (map imdb_id (appendUnique ms m))"
  by (simp add: appendUnique_def find_None_imdb split: option.splits)

lemma appendUnique_prefix: "\<exists>extra. appendUnique ms m = ms @ extra"
  by (simp add: appendUnique_def split: option.splits)

lemma foldl_appendUnique_prefix: "\<exists>extra. foldl appendUnique ms new = ms @ extra"
proof (induction new arbitrary: ms)
  case Nil
  show ?case by simp
next
  case (Cons a new)
  obtain e1 where e1: "appendUnique ms a = ms @ e1"
    using appendUnique_prefix by blast
  obtain e2 where "foldl appendUnique (ms @ e1) new = (ms @ e1) @ e2"
    using Cons.IH by blast
  with e1 show ?case by simp
qed

section \<open>Facts about the schema\<close>

lemma zMovie_movieJson [simp]: "zMovie (movieJson m) = Some m"
  by (simp add: movieJson_def)

lemma zMovies_movieJson [simp]: "zMovies (map movieJson ms) = Some ms"
  by (induction ms) simp_all

lemma zMovieArray_error: "zMovieArray j = Inl e \<Longrightarrow> e = ZodError"
  by (cases j) (auto split: option.splits)

section \<open>Facts about the pending window\<close>

lemma getDateRange_bounds:
  "x \<in> set (getDateRange f u) \<Longrightarrow> f \<le> x \<and> x \<le> u"
proof (induction f u rule: getDateRange.induct)
  case (1 date until)
  show ?case
  proof (cases "date \<le> until")
    case True
    with "1.prems" have "x = date \<or> x \<in> set (getDateRange (date + DAY) until)"
      by (simp add: getDateRange.simps [of date until])
    with True "1.IH" DAY_pos show ?thesis by auto
  next
    case False
    with "1.prems" show ?thesis by (simp add: getDateRange.simps [of date until])
  qed
qed

lemma getDateRange_dvd:
  "x \<in> set (getDateRange f u) \<Longrightarrow> DAY dvd f \<Longrightarrow> DAY dvd x"
proof (induction f u rule: getDateRange.induct)
  case (1 date until)
  show ?case
  proof (cases "date \<le> until")
    case True
    with "1.prems" have "x = date \<or> x \<in> set (getDateRange (date + DAY) until)"
      by (simp add: getDateRange.simps [of date until])
    with True "1.IH" "1.prems"(2) show ?thesis by auto
  next
    case False
    with "1.prems" show ?thesis by (simp add: getDateRange.simps [of date until])
  qed
qed

lemma getDateRange_sorted: "sorted_wrt (<) (getDateRange f u)"
proof (induction f u rule: getDateRange.induct)
  case (1 date until)
  show ?case
  proof (cases "date \<le> until")
    case True
    have "\<forall>x\<in>set (getDateRange (date + DAY) until). date < x"
      using getDateRange_bounds [of _ "date + DAY" until] DAY_pos by fastforce
    with True "1.IH" show ?thesis by (simp add: getDateRange.simps [of date until])
  next
    case False
    then show ?thesis by (simp add: getDateRange.simps [of date until])
  qed
qed

lemma getDateRange_empty: "u < f \<Longrightarrow> getDateRange f u = []"
  by (simp add: getDateRange.simps [of f u])

lemma getDateRange_week:
  "getDateRange (c * DAY + DAY) (c * DAY + 7 * DAY) =
     [(c + 1) * DAY, (c + 2) * DAY, (c + 3) * DAY, (c + 4) * DAY,
      (c + 5) * DAY, (c + 6) * DAY, (c + 7) * DAY]"
  using DAY_pos by (simp add: getDateRange.simps algebra_simps)

lemma getSyncUntil_eq:
  "getSyncUntil now t =
     (if now - DAY < t then Inl InvalidLastSync else Inr (min (t + 7 * DAY) (now - DAY)))"
  by (simp add: getSyncUntil_def getLatestSync_def Let_def min_def)

section \<open>Facts about the stores\<close>

lemma getLastSynced_present:
  "bucket w lastSyncedBucketKey = Some (DateText c) \<Longrightarrow>
   getLastSynced w = (Inr (c * DAY), logged (Get lastSyncedBucketKey) w)"
  by (simp add: getLastSynced_def bucket_get_def)

lemma getLastSynced_absent:
  "bucket w lastSyncedBucketKey = None \<Longrightarrow>
   getLastSynced w =
     (Inr (18231 * DAY), setLastSynced (18231 * DAY) (logged (Get lastSyncedBucketKey) w))"
  by (simp add: getLastSynced_def bucket_get_def getEarliestSync_def Let_def algebra_simps)

lemma getLastSynced_Inr:
  assumes "getLastSynced w = (Inr t, w1)"
  shows "\<exists>c. t = c * DAY \<and> bucket w1 lastSyncedBucketKey = Some (DateText c) \<and>
             bucket w1 moviesBucketKey = bucket w moviesBucketKey \<and>
             (bucket w lastSyncedBucketKey \<noteq> None \<longrightarrow> w1 = logged (Get lastSyncedBucketKey) w)"
proof (cases "bucket w lastSyncedBucketKey")
  case None
  with assms show ?thesis
    by (auto simp: getLastSynced_absent setLastSynced_def)
next
  case (Some b)
  with assms show ?thesis
    by (cases b) (auto simp: getLastSynced_def bucket_get_def)
qed

lemma getNextSyncDates_present:
  "bucket w lastSyncedBucketKey = Some (DateText c) \<Longrightarrow>
   getNextSyncDates now w =
     ((case getSyncUntil now (c * DAY) of
         Inl e \<Rightarrow> Inl e
       | Inr u \<Rightarrow> Inr (getDateRange (c * DAY + DAY) u)),
      logged (Get lastSyncedBucketKey) w)"
  by (simp add: getNextSyncDates_def getLastSynced_present Let_def split: sum.splits)

lemma getNextSyncDates_Inr:
  assumes "getNextSyncDates now w = (Inr ds, w1)"
  shows "\<exists>c u. bucket w1 lastSyncedBucketKey = Some (DateText c) \<and>
             ds = getDateRange (c * DAY + DAY) u \<and>
             bucket w1 moviesBucketKey = bucket w moviesBucketKey \<and>
             (bucket w lastSyncedBucketKey \<noteq> None \<longrightarrow> w1 = logged (Get lastSyncedBucketKey) w)"
proof -
  obtain res w0 where g: "getLastSynced w = (res, w0)"
    by (cases "getLastSynced w")
  with assms obtain t where t: "res = Inr t"
    by (cases res) (auto simp: getNextSyncDates_def)
  with g assms obtain u where u: "getSyncUntil now t = Inr u"
    and ds: "ds = getDateRange (t + DAY) u" and w1: "w1 = w0"
    by (cases "getSyncUntil now t") (auto simp: getNextSyncDates_def Let_def)
  from getLastSynced_Inr [OF g [unfolded t]] ds w1 show ?thesis by blast
qed

text \<open>The days of a window are midnights after the checkpoint, in ascending order.\<close>

lemma window_days:
  assumes "x \<in> set (getDateRange (c * DAY + DAY) u)"
  shows "c * DAY < x" and "(x div DAY) * DAY = x" and "c < x div DAY"
proof -
  from getDateRange_bounds [OF assms] DAY_pos show lt: "c * DAY < x" by linarith
  have "DAY dvd c * DAY + DAY" by simp
  from getDateRange_dvd [OF assms this] show "(x div DAY) * DAY = x" by simp
  with lt have "c * DAY < (x div DAY) * DAY" by simp
  then show "c < x div DAY" using DAY_pos by simp
qed

lemma getMovies_present:
  "bucket w moviesBucketKey = Some (JsonText j) \<Longrightarrow>
   getMovies w = (zMovieArray j, logged (Get moviesBucketKey) w)"
  by (simp add: getMovies_def bucket_get_def)

lemma getMovies_world:
  assumes "getMovies w = (res, w')"
  shows "(bucket w moviesBucketKey \<noteq> None \<and> w' = logged (Get moviesBucketKey) w) \<or>
         (bucket w moviesBucketKey = None \<and> res = Inr [] \<and>
          w' = setMovies [] (logged (Get moviesBucketKey) w))"
proof (cases "bucket w moviesBucketKey")
  case None
  with assms show ?thesis by (auto simp: getMovies_def bucket_get_def)
next
  case (Some b)
  with assms show ?thesis by (cases b) (auto simp: getMovies_def bucket_get_def)
qed

lemma getMovies_checkpoint:
  "getMovies w = (res, w') \<Longrightarrow> bucket w' lastSyncedBucketKey = bucket w lastSyncedBucketKey"
  by (drule getMovies_world) (auto simp: setMovies_def)

lemma getMovies_result:
  "bucket w moviesBucketKey = bucket v moviesBucketKey \<Longrightarrow> fst (getMovies w) = fst (getMovies v)"
  by (simp add: getMovies_def bucket_get_def split: option.splits blob.splits)

section \<open>Facts about the loop\<close>

lemma readResponse_cases:
  obtains (error) e where "readResponse x = Inl e"
  | (skip) "readResponse x = Inr None"
  | (day) new where "readResponse x = Inr (Some new)"
proof (cases "readResponse x")
  case (Inl e)
  then show ?thesis using error by blast
next
  case (Inr a)
  then show ?thesis using skip day by (cases a) auto
qed

lemma syncLoop_error:
  "readResponse (r d) = Inl e \<Longrightarrow> syncLoop r (d # ds) m w = (Inl e, logged (Fetch d) w)"
  by (simp add: fetchMovies_def)

lemma syncLoop_skip:
  "readResponse (r d) = Inr None \<Longrightarrow>
   syncLoop r (d # ds) m w = syncLoop r ds m (logged (Fetch d) w)"
  by (simp add: fetchMovies_def)

lemma syncLoop_day:
  "readResponse (r d) = Inr (Some new) \<Longrightarrow>
   syncLoop r (d # ds) m w = syncLoop r ds (foldl appendUnique m new) (afterDay d m new w)"
  unfolding afterDay_def
  by (simp add: fetchMovies_def Let_def split del: if_split)

lemma afterDay_checkpoint [simp]:
  "bucket (afterDay d m new w) lastSyncedBucketKey = Some (DateText (d div DAY))"
  by (simp add: afterDay_def setLastSynced_def)

lemma afterDay_trace:
  "\<exists>ev. trace (afterDay d m new w) = trace w @ ev \<and>
        (\<forall>x. Fetch x \<in> set ev \<longrightarrow> x = d) \<and>
        (\<forall>b. Put moviesBucketKey b \<in> set ev \<longrightarrow> b = stringify (foldl appendUnique m new))"
  by (simp add: afterDay_def setLastSynced_def setMovies_def)

lemma syncLoop_append:
  "syncLoop r (xs @ ys) m w =
     (case syncLoop r xs m w of
        (Inl e, w') \<Rightarrow> (Inl e, w')
      | (Inr m', w') \<Rightarrow> syncLoop r ys m' w')"
proof (induction xs arbitrary: m w)
  case Nil
  show ?case by simp
next
  case (Cons d xs)
  show ?case
    by (cases "r d" rule: readResponse_cases)
       (simp_all only: append_Cons syncLoop_error syncLoop_skip syncLoop_day Cons.IH, simp)
qed

lemma syncLoop_unavailable:
  "\<forall>x\<in>set ds. readResponse (r x) = Inr None \<Longrightarrow>
   syncLoop r ds m w = (Inr m, w\<lparr>trace := trace w @ map Fetch ds\<rparr>)"
  by (induction ds arbitrary: w) (simp_all add: syncLoop_skip logged_def del: syncLoop.simps(2))

lemma syncLoop_checkpoint:
  "syncLoop r ds m w = (res, w') \<Longrightarrow>
   bucket w' lastSyncedBucketKey = bucket w lastSyncedBucketKey \<or>
   (\<exists>x\<in>set ds. bucket w' lastSyncedBucketKey = Some (DateText (x div DAY)))"
proof (induction ds arbitrary: m w)
  case Nil
  then show ?case by simp
next
  case (Cons d ds)
  show ?case
  proof (cases "r d" rule: readResponse_cases)
    case (error e)
    with Cons.prems show ?thesis by (auto simp only: syncLoop_error bucket_logged)
  next
    case skip
    with Cons.prems have "syncLoop r ds m (logged (Fetch d) w) = (res, w')"
      by (simp only: syncLoop_skip)
    from Cons.IH [OF this] show ?thesis by auto
  next
    case (day new)
    with Cons.prems
    have "syncLoop r ds (foldl appendUnique m new) (afterDay d m new w) = (res, w')"
      by (simp only: syncLoop_day)
    from Cons.IH [OF this] show ?thesis by auto
  qed
qed

lemma syncLoop_trace:
  "syncLoop r ds m w = (res, w') \<Longrightarrow>
   \<exists>ev. trace w' = trace w @ ev \<and>
        (\<forall>x. Fetch x \<in> set ev \<longrightarrow> x \<in> set ds) \<and>
        (\<forall>b. Put moviesBucketKey b \<in> set ev \<longrightarrow> (\<exists>extra. b = stringify (m @ extra)))"
proof (induction ds arbitrary: m w)
  case Nil
  then show ?case by simp
next
  case (Cons d ds)
  show ?case
  proof (cases "r d" rule: readResponse_cases)
    case (error e)
    with Cons.prems have "w' = logged (Fetch d) w"
      by (simp only: syncLoop_error) simp
    then show ?thesis by simp
  next
    case skip
    with Cons.prems have "syncLoop r ds m (logged (Fetch d) w) = (res, w')"
      by (simp only: syncLoop_skip)
    from Cons.IH [OF this] obtain ev where
      ev: "trace w' = trace (logged (Fetch d) w) @ ev"
        "\<forall>x. Fetch x \<in> set ev \<longrightarrow> x \<in> set ds"
        "\<forall>b. Put moviesBucketKey b \<in> set ev \<longrightarrow> (\<exists>extra. b = stringify (m @ extra))"
      by blast
    have "trace w' = trace w @ (Fetch d # ev)" using ev(1) by simp
    moreover have "\<forall>x. Fetch x \<in> set (Fetch d # ev) \<longrightarrow> x \<in> set (d # ds)"
      using ev(2) by auto
    moreover have "\<forall>b. Put moviesBucketKey b \<in> set (Fetch d # ev) \<longrightarrow>
        (\<exists>extra. b = stringify (m @ extra))"
      using ev(3) by auto
    ultimately show ?thesis by blast
  next
    case (day new)
    define m' where "m' = foldl appendUnique m new"
    obtain e1 where e1: "m' = m @ e1"
      unfolding m'_def using foldl_appendUnique_prefix by blast
    from day Cons.prems have "syncLoop r ds m' (afterDay d m new w) = (res, w')"
      by (simp only: syncLoop_day m'_def)
    from Cons.IH [OF this] obtain ev where
      ev: "trace w' = trace (afterDay d m new w) @ ev"
        "\<forall>x. Fetch x \<in> set ev \<longrightarrow> x \<in> set ds"
        "\<forall>b. Put moviesBucketKey b \<in> set ev \<longrightarrow> (\<exists>extra. b = stringify (m' @ extra))"
      by blast
    obtain ev0 where
      ev0: "trace (afterDay d m new w) = trace w @ ev0"
        "\<forall>x. Fetch x \<in> set ev0 \<longrightarrow> x = d"
        "\<forall>b. Put moviesBucketKey b \<in> set ev0 \<longrightarrow> b = stringify m'"
      unfolding m'_def using afterDay_trace by blast
    have "trace w' = trace w @ (ev0 @ ev)" using ev(1) ev0(1) by simp
    moreover have "\<forall>x. Fetch x \<in> set (ev0 @ ev) \<longrightarrow> x \<in> set (d # ds)"
      using ev(2) ev0(2) by auto
    moreover have "\<forall>b. Put moviesBucketKey b \<in> set (ev0 @ ev) \<longrightarrow>
        (\<exists>extra. b = stringify (m @ extra))"
    proof (intro allI impI)
      fix b
      assume "Put moviesBucketKey b \<in> set (ev0 @ ev)"
      then consider "Put moviesBucketKey b \<in> set ev0" | "Put moviesBucketKey b \<in> set ev"
        by auto
      then show "\<exists>extra. b = stringify (m @ extra)"
      proof cases
        case 1
        with ev0(3) e1 show ?thesis by blast
      next
        case 2
        with ev(3) obtain extra where "b = stringify (m' @ extra)" by blast
        with e1 have "b = stringify (m @ (e1 @ extra))" by simp
        then show ?thesis by blast
      qed
    qed
    ultimately show ?thesis by blast
  qed
qed

lemma syncLoop_all_ok:
  "\<forall>x\<in>set ds. \<exists>new. readResponse (r x) = Inr (Some new) \<Longrightarrow>
   \<exists>m' w'. syncLoop r ds m w = (Inr m', w') \<and>
     (ds \<noteq> [] \<longrightarrow> bucket w' lastSyncedBucketKey = Some (DateText (last ds div DAY))) \<and>
     (ds = [] \<longrightarrow> w' = w)"
proof (induction ds arbitrary: m w)
  case Nil
  show ?case by simp
next
  case (Cons d ds)
  from Cons.prems obtain new where new: "readResponse (r d) = Inr (Some new)"
    by auto
  from Cons.prems have "\<forall>x\<in>set ds. \<exists>new. readResponse (r x) = Inr (Some new)"
    by simp
  from Cons.IH [OF this, of "foldl appendUnique m new" "afterDay d m new w"]
  obtain m' w' where
    run: "syncLoop r ds (foldl appendUnique m new) (afterDay d m new w) = (Inr m', w')"
    and last: "ds \<noteq> [] \<longrightarrow> bucket w' lastSyncedBucketKey = Some (DateText (last ds div DAY))"
    and same: "ds = [] \<longrightarrow> w' = afterDay d m new w"
    by blast
  have "syncLoop r (d # ds) m w = (Inr m', w')"
    using new run by (simp only: syncLoop_day)
  moreover have "bucket w' lastSyncedBucketKey = Some (DateText (last (d # ds) div DAY))"
    using last same by (cases "ds = []") simp_all
  ultimately show ?case by blast
qed

section \<open>The shape of a run\<close>

lemma syncMovies_cases:
  obtains
    (invalid) e w1 where "getNextSyncDates now w = (Inl e, w1)"
      "syncMovies r now w = (Inl e, w1)"
  | (empty) w1 where "getNextSyncDates now w = (Inr [], w1)"
      "syncMovies r now w = (Inr (), w1)"
  | (unreadable) ds w1 e w2 where "getNextSyncDates now w = (Inr ds, w1)" "ds \<noteq> []"
      "getMovies w1 = (Inl e, w2)" "syncMovies r now w = (Inl e, w2)"
  | (loop) ds w1 m0 w2 res w3 where "getNextSyncDates now w = (Inr ds, w1)" "ds \<noteq> []"
      "getMovies w1 = (Inr m0, w2)" "syncLoop r ds m0 w2 = (res, w3)"
      "syncMovies r now w = ((case res of Inl e \<Rightarrow> Inl e | Inr _ \<Rightarrow> Inr ()), w3)"
proof -
  obtain res1 w1 where g: "getNextSyncDates now w = (res1, w1)"
    by (cases "getNextSyncDates now w")
  show thesis
  proof (cases res1)
    case (Inl e)
    with g invalid show thesis by (simp add: syncMovies_def)
  next
    case (Inr ds)
    show thesis
    proof (cases "ds = []")
      case True
      with g Inr empty show thesis by (simp add: syncMovies_def)
    next
      case False
      obtain res2 w2 where m: "getMovies w1 = (res2, w2)"
        by (cases "getMovies w1")
      show thesis
      proof (cases res2)
        case (Inl e)
        with g Inr False m unreadable show thesis by (simp add: syncMovies_def)
      next
        case m0: (Inr m0)
        obtain res w3 where l: "syncLoop r ds m0 w2 = (res, w3)"
          by (cases "syncLoop r ds m0 w2")
        have "syncMovies r now w = ((case res of Inl e \<Rightarrow> Inl e | Inr _ \<Rightarrow> Inr ()), w3)"
          using g Inr False m m0 l by (simp add: syncMovies_def split: sum.splits)
        with g Inr False m m0 l loop show thesis by blast
      qed
    qed
  qed
qed

section \<open>Claims about the merge engine\<close>

text \<open>
  C7. \<^verbatim>\<open>appendUnique\<close> builds its result with spread copies only and never writes to its
  argument; as a function of values, if some record of \<open>existing\<close> has the identifier of
  \<open>incoming\<close> the result is \<open>existing\<close> unchanged, and otherwise it is \<open>existing\<close> with
  \<open>incoming\<close> appended at the end.
\<close>

theorem appendUnique_first_seen_wins:
  "appendUnique existing incoming =
     (if imdb_id incoming \<in> imdb_id ` set existing then existing else existing @ [incoming])"
proof (cases "imdb_id incoming \<in> imdb_id ` set existing")
  case False
  then have "find (\<lambda>movie. imdb_id movie = imdb_id incoming) existing = None"
    by (simp add: find_None_imdb)
  with False show ?thesis by (simp add: appendUnique_def)
next
  case True
  then have "find (\<lambda>movie. imdb_id movie = imdb_id incoming) existing \<noteq> None"
    by (simp add: find_None_imdb)
  then obtain m where "find (\<lambda>movie. imdb_id movie = imdb_id incoming) existing = Some m"
    by blast
  with True show ?thesis by (simp add: appendUnique_def)
qed

theorem appendUnique_first_seen_wins_witness:
  "appendUnique [mA] mA' = [mA] \<and> appendUnique [mA] mB = [mA, mB]"
  using appendUnique_first_seen_wins [of "[mA]" mA'] appendUnique_first_seen_wins [of "[mA]" mB]
  by (simp add: mA_def mA'_def mB_def)

text \<open>
  C8, as stated: folding \<^verbatim>\<open>appendUnique\<close> from any collection yields unique identifiers.
  It fails from a collection that already holds a duplicate: the fold only compares the
  incoming record with what is there.
\<close>

theorem fold_from_duplicates_counterexample:
  "imdb_id mA = imdb_id mA' \<and> mA \<noteq> mA' \<and>
   foldl appendUnique [mA, mA'] [mB] = [mA, mA', mB] \<and>
   \<not> distinct (map imdb_id (foldl appendUnique [mA, mA'] [mB]))"
  by (simp add: appendUnique_def mA_def mA'_def mB_def)

text \<open>
  C8, amended: folding \<^verbatim>\<open>appendUnique\<close> over any sequence of incoming records, starting
  from a collection whose identifiers are pairwise distinct (the empty one in particular),
  yields a collection in which no two records share an identifier.
\<close>

theorem fold_appendUnique_distinct:
  "distinct (map imdb_id existing) \<Longrightarrow>
   distinct (map imdb_id (foldl appendUnique existing incoming))"
  by (induction incoming arbitrary: existing) (simp_all add: appendUnique_distinct)

theorem fold_appendUnique_distinct_witness:
  "distinct (map imdb_id [mA]) \<and>
   foldl appendUnique [mA] [mB, mA', mB] = [mA, mB] \<and>
   distinct (map imdb_id (foldl appendUnique [mA] [mB, mA', mB]))"
  using fold_appendUnique_distinct [of "[mA]" "[mB, mA', mB]"]
  by (simp add: appendUnique_def mA_def mA'_def mB_def)

section \<open>Claims about the snapshot fetcher\<close>

text \<open>
  C2. For every date, \<^verbatim>\<open>fetchMovies\<close> returns an empty array on a 404 response, \<^verbatim>\<open>null\<close>
  on any other response that is not ok, and an empty array on an ok response whose body
  does not parse as JSON; none of the three raises.
\<close>

theorem fetchMovies_outcomes:
  "(r d = Response 404 b \<longrightarrow> fetchMovies r d w = (Inr (Some []), logged (Fetch d) w)) \<and>
   (r d = Response st b \<and> \<not> ok st \<and> st \<noteq> 404 \<longrightarrow>
      fetchMovies r d w = (Inr None, logged (Fetch d) w)) \<and>
   (r d = Response st NotJson \<and> ok st \<longrightarrow>
      fetchMovies r d w = (Inr (Some []), logged (Fetch d) w))"
  by (simp add: fetchMovies_def ok_def)

theorem fetchMovies_outcomes_witness:
  "fst (fetchMovies (remoteOf [(11, Response 404 (JsonBody JNull)), (12, Response 500 NotJson),
        (13, Response 200 NotJson)]) (11 * DAY) (worldOf [])) = Inr (Some []) \<and>
   fst (fetchMovies (remoteOf [(11, Response 404 (JsonBody JNull)), (12, Response 500 NotJson),
        (13, Response 200 NotJson)]) (12 * DAY) (worldOf [])) = Inr None \<and>
   fst (fetchMovies (remoteOf [(11, Response 404 (JsonBody JNull)), (12, Response 500 NotJson),
        (13, Response 200 NotJson)]) (13 * DAY) (worldOf [])) = Inr (Some [])"
  using
    fetchMovies_outcomes [of "remoteOf [(11, Response 404 (JsonBody JNull)),
        (12, Response 500 NotJson), (13, Response 200 NotJson)]" "11 * DAY" "JsonBody JNull"
        "worldOf []" 404 ]
    fetchMovies_outcomes [of "remoteOf [(11, Response 404 (JsonBody JNull)),
        (12, Response 500 NotJson), (13, Response 200 NotJson)]" "12 * DAY" NotJson
        "worldOf []" 500]
    fetchMovies_outcomes [of "remoteOf [(11, Response 404 (JsonBody JNull)),
        (12, Response 500 NotJson), (13, Response 200 NotJson)]" "13 * DAY" NotJson
        "worldOf []" 200]
  by (simp add: remoteOf_def ok_def)

section \<open>Claims about the pending window\<close>

text \<open>The equations that evaluate a run on a concrete bucket, remote source and clock.\<close>

lemmas run_defs = syncMovies_def getNextSyncDates_def getLastSynced_def getMovies_def
  getSyncUntil_def getLatestSync_def bucket_get_def bucket_put_def setMovies_def setLastSynced_def
  fetchMovies_def logged_def worldOf_def remoteOf_def noon_def DAY_def
  moviesBucketKey_def lastSyncedBucketKey_def stringify_def movieJson_def appendUnique_def
  getDateRange.simps Let_def ok_def mA_def mA'_def mB_def

lemma getNextSyncDates_window:
  "bucket w lastSyncedBucketKey = Some (DateText c) \<Longrightarrow> getSyncUntil now (c * DAY) = Inr u \<Longrightarrow>
   getNextSyncDates now w =
     (Inr (getDateRange (c * DAY + DAY) u), logged (Get lastSyncedBucketKey) w)"
  by (simp add: getNextSyncDates_present)

lemma getNextSyncDates_invalid:
  "bucket w lastSyncedBucketKey = Some (DateText c) \<Longrightarrow> getSyncUntil now (c * DAY) = Inl e \<Longrightarrow>
   getNextSyncDates now w = (Inl e, logged (Get lastSyncedBucketKey) w)"
  by (simp add: getNextSyncDates_present)

lemma syncMovies_empty:
  "getNextSyncDates now w = (Inr [], w1) \<Longrightarrow> syncMovies r now w = (Inr (), w1)"
  by (simp add: syncMovies_def)

lemma syncMovies_invalid:
  "getNextSyncDates now w = (Inl e, w1) \<Longrightarrow> syncMovies r now w = (Inl e, w1)"
  by (simp add: syncMovies_def)

lemma window_at_yesterday:
  assumes "bucket w lastSyncedBucketKey = Some (DateText c)" and "c = (now - DAY) div DAY"
  shows "getNextSyncDates now w = (Inr [], logged (Get lastSyncedBucketKey) w)"
proof -
  have lo: "c * DAY \<le> now - DAY" using assms(2) day_floor [of "now - DAY"] by simp
  have hi: "now - DAY < c * DAY + DAY" using assms(2) day_ceil [of "now - DAY"] by simp
  have "getSyncUntil now (c * DAY) = Inr (now - DAY)"
    using lo hi DAY_pos by (simp add: getSyncUntil_eq min_def)
  from getNextSyncDates_window [OF assms(1) this] hi show ?thesis
    by (simp add: getDateRange_empty)
qed

text \<open>
  C6. With a persisted checkpoint strictly after yesterday (the UTC day of the clock minus
  one day), \<^verbatim>\<open>syncMovies\<close> raises "Invalid last sync date" having only read the
  checkpoint: no fetch, no write. With a checkpoint equal to yesterday it does not raise:
  the window is empty and the run returns.
\<close>

theorem future_checkpoint_raises:
  assumes "bucket w lastSyncedBucketKey = Some (DateText c)"
  shows "((now - DAY) div DAY < c \<longrightarrow>
            syncMovies r now w = (Inl InvalidLastSync, logged (Get lastSyncedBucketKey) w)) \<and>
         (c = (now - DAY) div DAY \<longrightarrow>
            fst (getNextSyncDates now w) = Inr [] \<and>
            syncMovies r now w = (Inr (), logged (Get lastSyncedBucketKey) w))"
proof (intro conjI impI)
  assume "(now - DAY) div DAY < c"
  then have "now - DAY < c * DAY" by (simp add: day_lt_iff)
  then have "getSyncUntil now (c * DAY) = Inl InvalidLastSync"
    by (simp add: getSyncUntil_eq)
  from getNextSyncDates_invalid [OF assms this]
  show "syncMovies r now w = (Inl InvalidLastSync, logged (Get lastSyncedBucketKey) w)"
    by (rule syncMovies_invalid)
next
  assume "c = (now - DAY) div DAY"
  from window_at_yesterday [OF assms this]
  show "fst (getNextSyncDates now w) = Inr []" by simp
next
  assume "c = (now - DAY) div DAY"
  from window_at_yesterday [OF assms this]
  show "syncMovies r now w = (Inr (), logged (Get lastSyncedBucketKey) w)"
    by (rule syncMovies_empty)
qed

theorem future_checkpoint_raises_witness:
  "syncMovies (remoteOf []) (noon 13) (worldOf [(lastSyncedBucketKey, DateText 13)]) =
     (Inl InvalidLastSync,
      \<lparr>bucket = map_of [(lastSyncedBucketKey, DateText 13)], trace = [Get lastSyncedBucketKey]\<rparr>) \<and>
   syncMovies (remoteOf []) (noon 13) (worldOf [(lastSyncedBucketKey, DateText 12)]) =
     (Inr (),
      \<lparr>bucket = map_of [(lastSyncedBucketKey, DateText 12)], trace = [Get lastSyncedBucketKey]\<rparr>)"
  using
    future_checkpoint_raises [of "worldOf [(lastSyncedBucketKey, DateText 13)]" 13 "noon 13"
      "remoteOf []"]
    future_checkpoint_raises [of "worldOf [(lastSyncedBucketKey, DateText 12)]" 12 "noon 13"
      "remoteOf []"]
  by (simp add: worldOf_def noon_def DAY_def logged_def)








text \<open>
  C4. With a persisted checkpoint \<open>c\<close> more than seven days before yesterday, the window is
  the seven days \<open>c + 1\<close>, ..., \<open>c + 7\<close> in ascending order, and a run in which the collection
  is readable and every fetch of the window returns an array ends without error with the
  checkpoint at \<open>c + 7\<close>.
\<close>

theorem window_bound:
  assumes "bucket w lastSyncedBucketKey = Some (DateText c)"
    and "7 < (now - DAY) div DAY - c"
  shows "fst (getNextSyncDates now w) =
           Inr [(c + 1) * DAY, (c + 2) * DAY, (c + 3) * DAY, (c + 4) * DAY,
                (c + 5) * DAY, (c + 6) * DAY, (c + 7) * DAY] \<and>
         ((\<exists>m0. fst (getMovies w) = Inr m0) \<and>
          (\<forall>d\<in>set [(c + 1) * DAY, (c + 2) * DAY, (c + 3) * DAY, (c + 4) * DAY,
                     (c + 5) * DAY, (c + 6) * DAY, (c + 7) * DAY].
              \<exists>new. readResponse (r d) = Inr (Some new)) \<longrightarrow>
          fst (syncMovies r now w) = Inr () \<and>
          bucket (snd (syncMovies r now w)) lastSyncedBucketKey = Some (DateText (c + 7)))"
proof -
  define ds where "ds = [(c + 1) * DAY, (c + 2) * DAY, (c + 3) * DAY, (c + 4) * DAY,
                (c + 5) * DAY, (c + 6) * DAY, (c + 7) * DAY]"
  define w1 where "w1 = logged (Get lastSyncedBucketKey) w"
  have "\<not> (now - DAY) div DAY < c + 8" using assms(2) by simp
  then have "\<not> now - DAY < (c + 8) * DAY" using day_lt_iff [of "now - DAY" "c + 8"] by blast
  then have "c * DAY + 8 * DAY \<le> now - DAY" by (simp add: algebra_simps)
  then have "getSyncUntil now (c * DAY) = Inr (c * DAY + 7 * DAY)"
    using DAY_pos by (simp add: getSyncUntil_eq min_def)
  from getNextSyncDates_window [OF assms(1) this]
  have window: "getNextSyncDates now w = (Inr ds, w1)"
    by (simp only: getDateRange_week ds_def w1_def)
  have run: "fst (syncMovies r now w) = Inr () \<and>
      bucket (snd (syncMovies r now w)) lastSyncedBucketKey = Some (DateText (c + 7))"
    if readable: "fst (getMovies w) = Inr m0"
      and fetched: "\<forall>d\<in>set ds. \<exists>new. readResponse (r d) = Inr (Some new)" for m0
  proof -
    have "fst (getMovies w1) = fst (getMovies w)"
      by (rule getMovies_result) (simp add: w1_def)
    with readable obtain w2 where w2: "getMovies w1 = (Inr m0, w2)"
      by (cases "getMovies w1") simp
    from syncLoop_all_ok [OF fetched, of m0 w2] obtain m' w3 where
      loop: "syncLoop r ds m0 w2 = (Inr m', w3)"
      and last: "bucket w3 lastSyncedBucketKey = Some (DateText (last ds div DAY))"
      by (auto simp: ds_def)
    have "syncMovies r now w = (Inr (), w3)"
      using window w2 loop by (simp add: syncMovies_def ds_def)
    with last show ?thesis by (simp add: ds_def)
  qed
  from window run show ?thesis
    unfolding ds_def by auto
qed

theorem window_bound_witness:
  "7 < (noon 30 - DAY) div DAY - 10 \<and>
   fst (getNextSyncDates (noon 30)
      (worldOf [(lastSyncedBucketKey, DateText 10), (moviesBucketKey, stringify [mA])])) =
     Inr [11 * DAY, 12 * DAY, 13 * DAY, 14 * DAY, 15 * DAY, 16 * DAY, 17 * DAY] \<and>
   fst (syncMovies
      (remoteOf [(11, Response 200 (JsonBody (JArr [movieJson mB]))), (12, Response 200 NotJson)])
      (noon 30)
      (worldOf [(lastSyncedBucketKey, DateText 10), (moviesBucketKey, stringify [mA])])) = Inr () \<and>
   bucket (snd (syncMovies
      (remoteOf [(11, Response 200 (JsonBody (JArr [movieJson mB]))), (12, Response 200 NotJson)])
      (noon 30)
      (worldOf [(lastSyncedBucketKey, DateText 10), (moviesBucketKey, stringify [mA])])))
     lastSyncedBucketKey = Some (DateText 17)"
  using window_bound [of
      "worldOf [(lastSyncedBucketKey, DateText 10), (moviesBucketKey, stringify [mA])]" 10
      "noon 30"
      "remoteOf [(11, Response 200 (JsonBody (JArr [movieJson mB]))), (12, Response 200 NotJson)]"]
  by (simp add: run_defs)

section \<open>Events and checkpoint of a run\<close>

lemma getLastSynced_world:
  assumes "getLastSynced w = (res, w0)"
  shows "w0 = logged (Get lastSyncedBucketKey) w \<or>
         w0 = setLastSynced (18231 * DAY) (logged (Get lastSyncedBucketKey) w)"
proof (cases "bucket w lastSyncedBucketKey")
  case None
  with assms show ?thesis by (simp add: getLastSynced_absent)
next
  case (Some b)
  with assms show ?thesis by (cases b) (auto simp: getLastSynced_def bucket_get_def)
qed

lemma getNextSyncDates_world:
  assumes "getNextSyncDates now w = (res, w1)"
  shows "w1 = logged (Get lastSyncedBucketKey) w \<or>
         w1 = setLastSynced (18231 * DAY) (logged (Get lastSyncedBucketKey) w)"
proof -
  obtain res0 w0 where g: "getLastSynced w = (res0, w0)"
    by (cases "getLastSynced w")
  with assms have "w1 = w0"
    by (auto simp: getNextSyncDates_def Let_def split: sum.splits)
  with getLastSynced_world [OF g] show ?thesis by simp
qed

lemma getNextSyncDates_events:
  assumes "getNextSyncDates now w = (res, w1)"
  shows "\<exists>ev. trace w1 = trace w @ ev \<and> (\<forall>x. Fetch x \<notin> set ev) \<and>
              (\<forall>b. Put moviesBucketKey b \<notin> set ev)"
  using getNextSyncDates_world [OF assms] by (auto simp: setLastSynced_def)

lemma getMovies_events:
  assumes "getMovies w = (res, w')"
  shows "\<exists>ev. trace w' = trace w @ ev \<and> (\<forall>x. Fetch x \<notin> set ev) \<and>
              (\<forall>b. Put moviesBucketKey b \<in> set ev \<longrightarrow> res = Inr [] \<and> b = stringify [])"
  using getMovies_world [OF assms] by (auto simp: setMovies_def)

lemma syncMovies_events:
  "\<exists>ev. trace (snd (syncMovies r now w)) = trace w @ ev \<and>
     (\<forall>x. Fetch x \<in> set ev \<longrightarrow> (\<exists>ds. fst (getNextSyncDates now w) = Inr ds \<and> x \<in> set ds)) \<and>
     (\<forall>b. Put moviesBucketKey b \<in> set ev \<longrightarrow>
        (\<exists>m0 extra. fst (getMovies (snd (getNextSyncDates now w))) = Inr m0 \<and>
                     b = stringify (m0 @ extra)))"
proof (cases rule: syncMovies_cases [of now w r])
  case (invalid e w1)
  from getNextSyncDates_events [OF invalid(1)] invalid(2) show ?thesis by auto
next
  case (empty w1)
  from getNextSyncDates_events [OF empty(1)] empty(2) show ?thesis by auto
next
  case (unreadable ds w1 e w2)
  from getNextSyncDates_events [OF unreadable(1)] obtain ev1 where
    ev1: "trace w1 = trace w @ ev1" "\<forall>x. Fetch x \<notin> set ev1" "\<forall>b. Put moviesBucketKey b \<notin> set ev1"
    by blast
  from getMovies_events [OF unreadable(3)] obtain ev2 where
    ev2: "trace w2 = trace w1 @ ev2" "\<forall>x. Fetch x \<notin> set ev2"
      "\<forall>b. Put moviesBucketKey b \<notin> set ev2"
    by auto
  have "trace (snd (syncMovies r now w)) = trace w @ (ev1 @ ev2)"
    using unreadable(4) ev1(1) ev2(1) by simp
  moreover have "\<forall>x. Fetch x \<notin> set (ev1 @ ev2)" using ev1(2) ev2(2) by simp
  moreover have "\<forall>b. Put moviesBucketKey b \<notin> set (ev1 @ ev2)" using ev1(3) ev2(3) by simp
  ultimately show ?thesis by blast
next
  case (loop ds w1 m0 w2 res w3)
  from getNextSyncDates_events [OF loop(1)] obtain ev1 where
    ev1: "trace w1 = trace w @ ev1" "\<forall>x. Fetch x \<notin> set ev1" "\<forall>b. Put moviesBucketKey b \<notin> set ev1"
    by blast
  from getMovies_events [OF loop(3)] obtain ev2 where
    ev2: "trace w2 = trace w1 @ ev2" "\<forall>x. Fetch x \<notin> set ev2"
      "\<forall>b. Put moviesBucketKey b \<in> set ev2 \<longrightarrow> m0 = [] \<and> b = stringify []"
    by auto
  from syncLoop_trace [OF loop(4)] obtain ev3 where
    ev3: "trace w3 = trace w2 @ ev3" "\<forall>x. Fetch x \<in> set ev3 \<longrightarrow> x \<in> set ds"
      "\<forall>b. Put moviesBucketKey b \<in> set ev3 \<longrightarrow> (\<exists>extra. b = stringify (m0 @ extra))"
    by blast
  have "trace (snd (syncMovies r now w)) = trace w @ (ev1 @ ev2 @ ev3)"
    using loop(5) ev1(1) ev2(1) ev3(1) by simp
  moreover have "\<forall>x. Fetch x \<in> set (ev1 @ ev2 @ ev3) \<longrightarrow>
      (\<exists>ds. fst (getNextSyncDates now w) = Inr ds \<and> x \<in> set ds)"
    using ev1(2) ev2(2) ev3(2) loop(1) by auto
  moreover have "\<forall>b. Put moviesBucketKey b \<in> set (ev1 @ ev2 @ ev3) \<longrightarrow>
      (\<exists>m0 extra. fst (getMovies (snd (getNextSyncDates now w))) = Inr m0 \<and>
                   b = stringify (m0 @ extra))"
  proof (intro allI impI)
    fix b
    assume "Put moviesBucketKey b \<in> set (ev1 @ ev2 @ ev3)"
    with ev1(3) consider "Put moviesBucketKey b \<in> set ev2" | "Put moviesBucketKey b \<in> set ev3"
      by auto
    then have "\<exists>extra. b = stringify (m0 @ extra)"
    proof cases
      case 1
      with ev2(3) have "b = stringify (m0 @ [])" by simp
      then show ?thesis by blast
    next
      case 2
      with ev3(3) show ?thesis by blast
    qed
    moreover have "fst (getMovies (snd (getNextSyncDates now w))) = Inr m0"
      using loop(1,3) by simp
    ultimately show "\<exists>m0 extra. fst (getMovies (snd (getNextSyncDates now w))) = Inr m0 \<and>
                   b = stringify (m0 @ extra)"
      by blast
  qed
  ultimately show ?thesis by blast
qed

lemma syncMovies_checkpoint_mono:
  assumes "bucket w lastSyncedBucketKey = Some (DateText c)"
  shows "\<exists>c'. c \<le> c' \<and> bucket (snd (syncMovies r now w)) lastSyncedBucketKey = Some (DateText c')"
proof -
  have start: "bucket w1 lastSyncedBucketKey = Some (DateText c)"
    if "getNextSyncDates now w = (res, w1)" for res w1
    using that assms by (auto simp: getNextSyncDates_present)
  show ?thesis
  proof (cases rule: syncMovies_cases [of now w r])
    case (invalid e w1)
    with start [OF invalid(1)] show ?thesis by auto
  next
    case (empty w1)
    with start [OF empty(1)] show ?thesis by auto
  next
    case (unreadable ds w1 e w2)
    with start [OF unreadable(1)] getMovies_checkpoint [OF unreadable(3)] show ?thesis by auto
  next
    case (loop ds w1 m0 w2 res w3)
    have w2: "bucket w2 lastSyncedBucketKey = Some (DateText c)"
      using start [OF loop(1)] getMovies_checkpoint [OF loop(3)] by simp
    obtain u where ds: "ds = getDateRange (c * DAY + DAY) u"
      using loop(1) assms by (auto simp: getNextSyncDates_present split: sum.splits)
    from syncLoop_checkpoint [OF loop(4)] w2
    consider "bucket w3 lastSyncedBucketKey = Some (DateText c)"
      | x where "x \<in> set ds" "bucket w3 lastSyncedBucketKey = Some (DateText (x div DAY))"
      by auto
    then show ?thesis
    proof cases
      case 1
      with loop(5) show ?thesis by auto
    next
      case 2
      from window_days(3) [OF 2(1) [unfolded ds]] have "c \<le> x div DAY" by simp
      with 2(2) loop(5) show ?thesis by auto
    qed
  qed
qed

lemma syncRuns_no_refetch:
  "bucket w lastSyncedBucketKey = Some (DateText c) \<Longrightarrow> d \<le> c * DAY \<Longrightarrow>
   \<exists>ev. trace (syncRuns rs w) = trace w @ ev \<and> Fetch d \<notin> set ev"
proof (induction rs arbitrary: w c)
  case Nil
  show ?case by simp
next
  case (Cons a rs)
  obtain r now where a: "a = (r, now)" by (cases a)
  define w' where "w' = snd (syncMovies r now w)"
  from syncMovies_events [of r now w] obtain ev1 where
    ev1: "trace w' = trace w @ ev1"
      "\<forall>x. Fetch x \<in> set ev1 \<longrightarrow> (\<exists>ds. fst (getNextSyncDates now w) = Inr ds \<and> x \<in> set ds)"
    unfolding w'_def by blast
  have "Fetch d \<notin> set ev1"
  proof
    assume "Fetch d \<in> set ev1"
    with ev1(2) obtain ds where ds: "fst (getNextSyncDates now w) = Inr ds" "d \<in> set ds"
      by blast
    then obtain u where "ds = getDateRange (c * DAY + DAY) u"
      using Cons.prems(1) by (auto simp: getNextSyncDates_present split: sum.splits)
    with ds(2) window_days(1) have "c * DAY < d" by blast
    with Cons.prems(2) show False by simp
  qed
  from syncMovies_checkpoint_mono [OF Cons.prems(1), of r now] obtain c' where
    c': "c \<le> c'" "bucket w' lastSyncedBucketKey = Some (DateText c')"
    unfolding w'_def by blast
  have "d \<le> c' * DAY" using Cons.prems(2) day_mono [OF c'(1)] by simp
  from Cons.IH [OF c'(2) this] obtain ev2 where
    ev2: "trace (syncRuns rs w') = trace w' @ ev2" "Fetch d \<notin> set ev2"
    by blast
  have "trace (syncRuns (a # rs) w) = trace w @ (ev1 @ ev2)"
    using ev1(1) ev2(1) by (simp add: a w'_def)
  moreover have "Fetch d \<notin> set (ev1 @ ev2)"
    using \<open>Fetch d \<notin> set ev1\<close> ev2(2) by simp
  ultimately show ?case by blast
qed

lemma syncLoop_fetches_all:
  "syncLoop r ds m w = (Inr m', w') \<Longrightarrow> \<forall>x\<in>set ds. Fetch x \<in> set (trace w')"
proof (induction ds arbitrary: m w)
  case Nil
  show ?case by simp
next
  case (Cons d ds)
  show ?case
  proof (cases "r d" rule: readResponse_cases)
    case (error e)
    with Cons.prems show ?thesis by (simp only: syncLoop_error) simp
  next
    case skip
    with Cons.prems have run: "syncLoop r ds m (logged (Fetch d) w) = (Inr m', w')"
      by (simp only: syncLoop_skip)
    from syncLoop_trace [OF run] have "Fetch d \<in> set (trace w')" by auto
    with Cons.IH [OF run] show ?thesis by simp
  next
    case (day new)
    with Cons.prems
    have run: "syncLoop r ds (foldl appendUnique m new) (afterDay d m new w) = (Inr m', w')"
      by (simp only: syncLoop_day)
    have "Fetch d \<in> set (trace (afterDay d m new w))"
      by (simp add: afterDay_def setLastSynced_def setMovies_def)
    with syncLoop_trace [OF run] have "Fetch d \<in> set (trace w')" by auto
    with Cons.IH [OF run] show ?thesis by simp
  qed
qed

section \<open>Claims about failed days\<close>

lemma readResponse_unavailable:
  "r d = Response st b \<Longrightarrow> \<not> ok st \<Longrightarrow> st \<noteq> 404 \<Longrightarrow> readResponse (r d) = Inr None"
  by simp

lemma window_shape:
  assumes "getNextSyncDates now w = (Inr ds, w1)"
  obtains c where "bucket w1 lastSyncedBucketKey = Some (DateText c)"
    and "sorted_wrt (<) ds"
    and "\<forall>x\<in>set ds. c * DAY < x \<and> (x div DAY) * DAY = x"
proof -
  from getNextSyncDates_Inr [OF assms] obtain c u where
    c: "bucket w1 lastSyncedBucketKey = Some (DateText c)"
    and ds: "ds = getDateRange (c * DAY + DAY) u"
    by blast
  have "sorted_wrt (<) ds" by (simp add: ds getDateRange_sorted)
  moreover have "\<forall>x\<in>set ds. c * DAY < x \<and> (x div DAY) * DAY = x"
    using window_days(1,2) unfolding ds by blast
  ultimately show thesis using c that by blast
qed

text \<open>
  C1, as stated: after a non-404 failure status for day \<open>d\<close> the checkpoint after the run
  is below \<open>d\<close>. It fails when a later day of the same window is processed: with the
  checkpoint at day 10 and the clock on day 13, day 11 answers 500 and day 12 answers 200;
  the run returns without error with the checkpoint at day 12.
\<close>

theorem unavailable_day_counterexample:
  "remoteOf [(11, Response 500 NotJson), (12, Response 200 (JsonBody (JArr [])))] (11 * DAY) =
     Response 500 NotJson \<and>
   fst (syncMovies (remoteOf [(11, Response 500 NotJson), (12, Response 200 (JsonBody (JArr [])))])
      (noon 13) (worldOf [(lastSyncedBucketKey, DateText 10), (moviesBucketKey, stringify [])])) =
     Inr () \<and>
   Fetch (11 * DAY) \<in> set (trace (snd (syncMovies
      (remoteOf [(11, Response 500 NotJson), (12, Response 200 (JsonBody (JArr [])))])
      (noon 13) (worldOf [(lastSyncedBucketKey, DateText 10), (moviesBucketKey, stringify [])])))) \<and>
   bucket (snd (syncMovies
      (remoteOf [(11, Response 500 NotJson), (12, Response 200 (JsonBody (JArr [])))])
      (noon 13) (worldOf [(lastSyncedBucketKey, DateText 10), (moviesBucketKey, stringify [])])))
     lastSyncedBucketKey = Some (DateText 12) \<and>
   \<not> 12 * DAY < 11 * DAY"
  by (simp add: run_defs)

text \<open>
  C1, amended: when the fetch of a pending day \<open>d\<close> returns a non-404 failure status,
  processing \<open>d\<close> raises no error and writes nothing (the loop goes on to the next day
  from the same collection and bucket); and when every later day of the window also
  returns a non-404 failure status, the checkpoint after the run is a day strictly before
  \<open>d\<close>.
\<close>

theorem unavailable_day_not_checkpointed:
  assumes window: "fst (getNextSyncDates now w) = Inr (pre @ d # post)"
    and failed: "r d = Response st b" "\<not> ok st" "st \<noteq> 404"
    and later: "\<forall>x\<in>set post. readResponse (r x) = Inr None"
  shows "(\<forall>ds m v. syncLoop r (d # ds) m v = syncLoop r ds m (logged (Fetch d) v)) \<and>
         (\<exists>c'. bucket (snd (syncMovies r now w)) lastSyncedBucketKey = Some (DateText c') \<and>
               c' * DAY < d)"
proof
  have skip: "readResponse (r d) = Inr None"
    using failed by (rule readResponse_unavailable)
  then show "\<forall>ds m v. syncLoop r (d # ds) m v = syncLoop r ds m (logged (Fetch d) v)"
    by (simp only: syncLoop_skip) simp
  define ds where "ds = pre @ d # post"
  obtain w1 where g: "getNextSyncDates now w = (Inr ds, w1)"
    using window by (cases "getNextSyncDates now w") (simp add: ds_def)
  from window_shape [OF g] obtain c where
    c: "bucket w1 lastSyncedBucketKey = Some (DateText c)"
    and sorted: "sorted_wrt (<) ds"
    and days: "\<forall>x\<in>set ds. c * DAY < x \<and> (x div DAY) * DAY = x"
    by blast
  have before: "\<forall>x\<in>set pre. x < d"
    using sorted by (auto simp: ds_def sorted_wrt_append)
  have cd: "c * DAY < d" using days by (simp add: ds_def)
  have rest: "\<forall>x\<in>set (d # post). readResponse (r x) = Inr None"
    using skip later by simp
  have loop_end: "\<exists>c'. bucket (snd (syncLoop r ds m0 w2)) lastSyncedBucketKey = Some (DateText c') \<and>
      c' * DAY < d"
    if w2: "bucket w2 lastSyncedBucketKey = Some (DateText c)" for m0 w2
  proof -
    obtain resp wp where p: "syncLoop r pre m0 w2 = (resp, wp)"
      by (cases "syncLoop r pre m0 w2")
    have same: "bucket (snd (syncLoop r ds m0 w2)) lastSyncedBucketKey =
        bucket wp lastSyncedBucketKey"
    proof (cases resp)
      case (Inl e)
      with p show ?thesis by (simp add: ds_def syncLoop_append)
    next
      case (Inr m')
      with p show ?thesis
        by (simp add: ds_def syncLoop_append syncLoop_unavailable [OF rest]
            del: syncLoop.simps)
    qed
    from syncLoop_checkpoint [OF p] w2
    consider "bucket wp lastSyncedBucketKey = Some (DateText c)"
      | x where "x \<in> set pre" "bucket wp lastSyncedBucketKey = Some (DateText (x div DAY))"
      by auto
    then show ?thesis
    proof cases
      case 1
      with same cd show ?thesis by simp
    next
      case 2
      from 2(1) before have "x < d" by blast
      with day_floor [of x] have "(x div DAY) * DAY < d" by linarith
      with same 2(2) show ?thesis by simp
    qed
  qed
  show "\<exists>c'. bucket (snd (syncMovies r now w)) lastSyncedBucketKey = Some (DateText c') \<and>
      c' * DAY < d"
  proof (cases rule: syncMovies_cases [of now w r])
    case (invalid e w1')
    with g show ?thesis by simp
  next
    case (empty w1')
    with g show ?thesis by (simp add: ds_def)
  next
    case (unreadable ds' w1' e w2)
    with g have "getMovies w1 = (Inl e, w2)" by simp
    from getMovies_checkpoint [OF this] c cd unreadable(4) show ?thesis by simp
  next
    case (loop ds' w1' m0 w2 res w3)
    with g have m: "getMovies w1 = (Inr m0, w2)" and l: "syncLoop r ds m0 w2 = (res, w3)"
      by simp_all
    have "bucket w2 lastSyncedBucketKey = Some (DateText c)"
      using getMovies_checkpoint [OF m] c by simp
    from loop_end [OF this, of m0] l loop(5) show ?thesis by simp
  qed
qed

theorem unavailable_day_not_checkpointed_witness:
  "fst (getNextSyncDates (noon 14)
      (worldOf [(lastSyncedBucketKey, DateText 10), (moviesBucketKey, stringify [])])) =
     Inr ([11 * DAY] @ 12 * DAY # [13 * DAY]) \<and>
   remoteOf [(11, Response 200 (JsonBody (JArr [movieJson mA]))), (12, Response 503 NotJson),
             (13, Response 500 NotJson)] (12 * DAY) = Response 503 NotJson \<and>
   bucket (snd (syncMovies
      (remoteOf [(11, Response 200 (JsonBody (JArr [movieJson mA]))), (12, Response 503 NotJson),
                 (13, Response 500 NotJson)])
      (noon 14) (worldOf [(lastSyncedBucketKey, DateText 10), (moviesBucketKey, stringify [])])))
     lastSyncedBucketKey = Some (DateText 11) \<and>
   11 * DAY < 12 * DAY"
  using unavailable_day_not_checkpointed [of "noon 14"
      "worldOf [(lastSyncedBucketKey, DateText 10), (moviesBucketKey, stringify [])]"
      "[11 * DAY]" "12 * DAY" "[13 * DAY]"
      "remoteOf [(11, Response 200 (JsonBody (JArr [movieJson mA]))), (12, Response 503 NotJson),
                 (13, Response 500 NotJson)]" 503 NotJson]
  by (simp add: run_defs)

section \<open>Claims about malformed data\<close>

text \<open>
  C3, as stated: a day whose body parses but violates the schema leaves checkpoint and
  collection at their values before the run. It fails when an earlier day of the window
  has been processed: with the checkpoint at day 10 and an empty collection, day 11
  returns one record and day 12 a malformed one; the run raises the validation error with
  the checkpoint at day 11 and the record of day 11 stored.
\<close>

theorem malformed_day_counterexample:
  "fst (syncMovies
      (remoteOf [(11, Response 200 (JsonBody (JArr [movieJson mA]))),
                 (12, Response 200 (JsonBody (JArr [JObj [(''bad'', JStr ''data'')]])))])
      (noon 13) (worldOf [(lastSyncedBucketKey, DateText 10), (moviesBucketKey, stringify [])])) =
     Inl ZodError \<and>
   bucket (snd (syncMovies
      (remoteOf [(11, Response 200 (JsonBody (JArr [movieJson mA]))),
                 (12, Response 200 (JsonBody (JArr [JObj [(''bad'', JStr ''data'')]])))])
      (noon 13) (worldOf [(lastSyncedBucketKey, DateText 10), (moviesBucketKey, stringify [])])))
     lastSyncedBucketKey = Some (DateText 11) \<and>
   bucket (snd (syncMovies
      (remoteOf [(11, Response 200 (JsonBody (JArr [movieJson mA]))),
                 (12, Response 200 (JsonBody (JArr [JObj [(''bad'', JStr ''data'')]])))])
      (noon 13) (worldOf [(lastSyncedBucketKey, DateText 10), (moviesBucketKey, stringify [])])))
     moviesBucketKey = Some (stringify [mA]) \<and>
   DateText 11 \<noteq> DateText 10 \<and> stringify [mA] \<noteq> stringify []"
  by (simp add: run_defs)

text \<open>
  C3, amended: when a run reaches a pending day \<open>d\<close> whose fetch returns a success status
  with a body that parses as JSON but violates the Record schema, \<^verbatim>\<open>syncMovies\<close> fails
  with the validation error right after that fetch: no later day is fetched, nothing more
  is written, and checkpoint and collection stay as they were just before \<open>d\<close> was
  fetched, the writes of earlier days included. They are the values from before the run
  when \<open>d\<close> is the first pending day and both objects existed.
\<close>

theorem malformed_day_aborts:
  assumes window: "getNextSyncDates now w = (Inr (pre @ d # post), w1)"
    and readable: "getMovies w1 = (Inr m0, w2)"
    and reached: "syncLoop r pre m0 w2 = (Inr m, w3)"
    and malformed: "r d = Response st (JsonBody j)" "ok st" "zMovieArray j = Inl e"
  shows "syncMovies r now w = (Inl ZodError, logged (Fetch d) w3) \<and>
         bucket (snd (syncMovies r now w)) = bucket w3 \<and>
         (pre = [] \<and> bucket w lastSyncedBucketKey \<noteq> None \<and> bucket w moviesBucketKey \<noteq> None \<longrightarrow>
            bucket (snd (syncMovies r now w)) = bucket w)"
proof -
  have "e = ZodError" using malformed(3) by (rule zMovieArray_error)
  then have "readResponse (r d) = Inl ZodError"
    using malformed by simp
  then have "syncLoop r (d # post) m w3 = (Inl ZodError, logged (Fetch d) w3)"
    by (rule syncLoop_error)
  then have "syncLoop r (pre @ d # post) m0 w2 = (Inl ZodError, logged (Fetch d) w3)"
    using reached by (simp add: syncLoop_append del: syncLoop.simps)
  then have run: "syncMovies r now w = (Inl ZodError, logged (Fetch d) w3)"
    using window readable by (simp add: syncMovies_def)
  have first: "bucket w3 = bucket w"
    if "pre = []" "bucket w lastSyncedBucketKey \<noteq> None" "bucket w moviesBucketKey \<noteq> None"
  proof -
    from getNextSyncDates_Inr [OF window] that(2)
    have w1: "w1 = logged (Get lastSyncedBucketKey) w" by blast
    then have "bucket w1 moviesBucketKey \<noteq> None" using that(3) by simp
    with getMovies_world [OF readable] have "w2 = logged (Get moviesBucketKey) w1" by blast
    moreover have "w3 = w2" using reached that(1) by simp
    ultimately show ?thesis using w1 by simp
  qed
  from run first show ?thesis by simp
qed

theorem malformed_day_aborts_witness:
  "syncMovies
      (remoteOf [(12, Response 200 (JsonBody (JArr [JObj [(''bad'', JStr ''data'')]]))),
                 (13, Response 200 (JsonBody (JArr [movieJson mB])))])
      (noon 14) (worldOf [(lastSyncedBucketKey, DateText 11), (moviesBucketKey, stringify [mA])]) =
     (Inl ZodError,
      \<lparr>bucket = map_of [(lastSyncedBucketKey, DateText 11), (moviesBucketKey, stringify [mA])],
       trace = [Get lastSyncedBucketKey, Get moviesBucketKey, Fetch (12 * DAY)]\<rparr>)"
  using malformed_day_aborts [of "noon 14"
      "worldOf [(lastSyncedBucketKey, DateText 11), (moviesBucketKey, stringify [mA])]"
      "[]" "12 * DAY" "[13 * DAY]"
      "\<lparr>bucket = map_of [(lastSyncedBucketKey, DateText 11), (moviesBucketKey, stringify [mA])],
        trace = [Get lastSyncedBucketKey]\<rparr>"
      "[mA]"
      "\<lparr>bucket = map_of [(lastSyncedBucketKey, DateText 11), (moviesBucketKey, stringify [mA])],
        trace = [Get lastSyncedBucketKey, Get moviesBucketKey]\<rparr>"
      "remoteOf [(12, Response 200 (JsonBody (JArr [JObj [(''bad'', JStr ''data'')]]))),
                 (13, Response 200 (JsonBody (JArr [movieJson mB])))]"
      "[mA]"
      "\<lparr>bucket = map_of [(lastSyncedBucketKey, DateText 11), (moviesBucketKey, stringify [mA])],
        trace = [Get lastSyncedBucketKey, Get moviesBucketKey]\<rparr>"
      200 "JArr [JObj [(''bad'', JStr ''data'')]]" ZodError]
  by (simp add: run_defs)

section \<open>Claims about what persists\<close>

text \<open>
  C10. \<^verbatim>\<open>getMovies\<close> only validates the three string fields of each stored record: any
  stored array that passes is returned as parsed, with no comparison of identifiers, and
  the serialisation of any list of records, duplicates or not, passes. Every collection a
  following \<^verbatim>\<open>syncMovies\<close> writes is the stored one extended at the end, so duplicates
  already stored are kept in each write.
\<close>

theorem stored_duplicates_survive:
  assumes "bucket w moviesBucketKey = Some (JsonText j)" and "zMovieArray j = Inr ms"
  shows "getMovies w = (Inr ms, logged (Get moviesBucketKey) w) \<and>
         zMovieArray (JArr (map movieJson ms')) = Inr ms' \<and>
         (\<exists>ev. trace (snd (syncMovies r now w)) = trace w @ ev \<and>
            (\<forall>b. Put moviesBucketKey b \<in> set ev \<longrightarrow> (\<exists>extra. b = stringify (ms @ extra))))"
proof (intro conjI)
  show "getMovies w = (Inr ms, logged (Get moviesBucketKey) w)"
    using assms by (simp add: getMovies_present)
  show "zMovieArray (JArr (map movieJson ms')) = Inr ms'"
    by simp
  obtain res1 w1 where g: "getNextSyncDates now w = (res1, w1)"
    by (cases "getNextSyncDates now w")
  have "bucket w1 moviesBucketKey = bucket w moviesBucketKey"
    using getNextSyncDates_world [OF g] by (auto simp: setLastSynced_def)
  then have "fst (getMovies w1) = Inr ms"
    using assms by (simp add: getMovies_present)
  then have read: "fst (getMovies (snd (getNextSyncDates now w))) = Inr ms"
    using g by simp
  from syncMovies_events [of r now w] obtain ev where
    ev: "trace (snd (syncMovies r now w)) = trace w @ ev"
      "\<forall>b. Put moviesBucketKey b \<in> set ev \<longrightarrow>
        (\<exists>m0 extra. fst (getMovies (snd (getNextSyncDates now w))) = Inr m0 \<and>
                     b = stringify (m0 @ extra))"
    by blast
  from ev(2) read have "\<forall>b. Put moviesBucketKey b \<in> set ev \<longrightarrow> (\<exists>extra. b = stringify (ms @ extra))"
    by auto
  with ev(1) show "\<exists>ev. trace (snd (syncMovies r now w)) = trace w @ ev \<and>
      (\<forall>b. Put moviesBucketKey b \<in> set ev \<longrightarrow> (\<exists>extra. b = stringify (ms @ extra)))"
    by blast
qed

theorem stored_duplicates_survive_witness:
  "imdb_id mA = imdb_id mA' \<and> mA \<noteq> mA' \<and>
   fst (getMovies (worldOf [(lastSyncedBucketKey, DateText 11),
                            (moviesBucketKey, stringify [mA, mA'])])) = Inr [mA, mA'] \<and>
   trace (snd (syncMovies (remoteOf [(12, Response 200 (JsonBody (JArr [movieJson mB])))]) (noon 13)
      (worldOf [(lastSyncedBucketKey, DateText 11), (moviesBucketKey, stringify [mA, mA'])]))) =
     [Get lastSyncedBucketKey, Get moviesBucketKey, Fetch (12 * DAY),
      Put moviesBucketKey (stringify [mA, mA', mB]), Put lastSyncedBucketKey (DateText 12)]"
  using stored_duplicates_survive [of
      "worldOf [(lastSyncedBucketKey, DateText 11), (moviesBucketKey, stringify [mA, mA'])]"
      "JArr (map movieJson [mA, mA'])" "[mA, mA']" "[mA, mA']"
      "remoteOf [(12, Response 200 (JsonBody (JArr [movieJson mB])))]" "noon 13"]
  by (simp add: run_defs)

text \<open>
  C9. When, within one run that returns without error, the fetch of day \<open>d\<close> returns a
  non-404 failure status and a later day \<open>d'\<close> of the window is the last one whose fetch
  returns an array (a 404 counts), the run fetched \<open>d\<close> and ends with the checkpoint at
  \<open>d'\<close>, which is after \<open>d\<close>; from then on no sequence of further runs, whatever the
  remote source and the clock, fetches \<open>d\<close> again.
\<close>

theorem skipped_day_never_refetched:
  assumes window: "fst (getNextSyncDates now w) = Inr (pre @ d # mid @ d' # post)"
    and failed: "r d = Response st b" "\<not> ok st" "st \<noteq> 404"
    and later: "readResponse (r d') = Inr (Some new)"
    and rest: "\<forall>x\<in>set post. readResponse (r x) = Inr None"
    and returned: "fst (syncMovies r now w) = Inr ()"
  shows "Fetch d \<in> set (trace (snd (syncMovies r now w))) \<and>
         bucket (snd (syncMovies r now w)) lastSyncedBucketKey = Some (DateText (d' div DAY)) \<and>
         (d' div DAY) * DAY = d' \<and> d < d' \<and>
         (\<forall>rs. \<exists>ev. trace (syncRuns rs (snd (syncMovies r now w))) =
                        trace (snd (syncMovies r now w)) @ ev \<and>
                      Fetch d \<notin> set ev)"
proof -
  define ds where "ds = pre @ d # mid @ d' # post"
  define wf where "wf = snd (syncMovies r now w)"
  obtain w1 where g: "getNextSyncDates now w = (Inr ds, w1)"
    using window by (cases "getNextSyncDates now w") (simp add: ds_def)
  from window_shape [OF g] obtain c where
    sorted: "sorted_wrt (<) ds"
    and days: "\<forall>x\<in>set ds. c * DAY < x \<and> (x div DAY) * DAY = x"
    by blast
  have lt: "d < d'" using sorted by (simp add: ds_def sorted_wrt_append)
  have midnight: "(d' div DAY) * DAY = d'" using days by (simp add: ds_def)
  have "ds \<noteq> []" by (simp add: ds_def)
  obtain m0 w2 res where m: "getMovies w1 = (Inr m0, w2)"
    and l: "syncLoop r ds m0 w2 = (res, wf)"
    and run: "syncMovies r now w = ((case res of Inl e \<Rightarrow> Inl e | Inr _ \<Rightarrow> Inr ()), wf)"
  proof (cases rule: syncMovies_cases [of now w r])
    case (invalid e w1')
    with g show ?thesis by simp
  next
    case (empty w1')
    with g \<open>ds \<noteq> []\<close> show ?thesis by simp
  next
    case (unreadable ds' w1' e w2)
    with returned show ?thesis by simp
  next
    case (loop ds' w1' m0 w2 res w3)
    with g that show ?thesis by (simp add: wf_def)
  qed
  from run returned obtain mf where res: "res = Inr mf"
    by (cases res) simp_all
  have fetched: "Fetch d \<in> set (trace wf)"
    using syncLoop_fetches_all [OF l [unfolded res]] by (simp add: ds_def)
  obtain resp wp where p: "syncLoop r (pre @ d # mid) m0 w2 = (resp, wp)"
    by (cases "syncLoop r (pre @ d # mid) m0 w2")
  have split: "ds = (pre @ d # mid) @ d' # post" by (simp add: ds_def)
  from l res p obtain m1 where resp: "resp = Inr m1"
    by (cases resp) (simp_all add: split syncLoop_append del: syncLoop.simps append_assoc)
  have "syncLoop r (d' # post) m1 wp = (Inr mf, wf)"
    using l res p resp by (simp add: split syncLoop_append del: syncLoop.simps append_assoc)
  then have "syncLoop r post (foldl appendUnique m1 new) (afterDay d' m1 new wp) = (Inr mf, wf)"
    using later by (simp only: syncLoop_day)
  then have "wf = (afterDay d' m1 new wp)\<lparr>trace := trace (afterDay d' m1 new wp) @ map Fetch post\<rparr>"
    by (simp only: syncLoop_unavailable [OF rest]) simp
  then have checkpoint: "bucket wf lastSyncedBucketKey = Some (DateText (d' div DAY))"
    by simp
  have "d \<le> (d' div DAY) * DAY" using lt midnight by simp
  from syncRuns_no_refetch [OF checkpoint this]
  have "\<forall>rs. \<exists>ev. trace (syncRuns rs wf) = trace wf @ ev \<and> Fetch d \<notin> set ev"
    by blast
  with fetched checkpoint midnight lt show ?thesis
    unfolding wf_def by blast
qed

theorem skipped_day_never_refetched_witness:
  "fst (getNextSyncDates (noon 14)
      (worldOf [(lastSyncedBucketKey, DateText 10), (moviesBucketKey, stringify [])])) =
     Inr ([] @ 11 * DAY # [] @ 12 * DAY # [13 * DAY]) \<and>
   syncMovies
      (remoteOf [(11, Response 500 NotJson), (12, Response 200 (JsonBody (JArr [movieJson mA]))),
                 (13, Response 503 NotJson)])
      (noon 14) (worldOf [(lastSyncedBucketKey, DateText 10), (moviesBucketKey, stringify [])]) =
     (Inr (),
      \<lparr>bucket = map_of [(lastSyncedBucketKey, DateText 12), (moviesBucketKey, stringify [mA])],
       trace = [Get lastSyncedBucketKey, Get moviesBucketKey, Fetch (11 * DAY), Fetch (12 * DAY),
                Put moviesBucketKey (stringify [mA]), Put lastSyncedBucketKey (DateText 12),
                Fetch (13 * DAY)]\<rparr>) \<and>
   (\<forall>rs. \<exists>ev. trace (syncRuns rs (snd (syncMovies
        (remoteOf [(11, Response 500 NotJson), (12, Response 200 (JsonBody (JArr [movieJson mA]))),
                   (13, Response 503 NotJson)])
        (noon 14) (worldOf [(lastSyncedBucketKey, DateText 10), (moviesBucketKey, stringify [])])))) =
      trace (snd (syncMovies
        (remoteOf [(11, Response 500 NotJson), (12, Response 200 (JsonBody (JArr [movieJson mA]))),
                   (13, Response 503 NotJson)])
        (noon 14) (worldOf [(lastSyncedBucketKey, DateText 10), (moviesBucketKey, stringify [])]))) @ ev \<and>
      Fetch (11 * DAY) \<notin> set ev)"
proof -
  have run: "syncMovies
      (remoteOf [(11, Response 500 NotJson), (12, Response 200 (JsonBody (JArr [movieJson mA]))),
                 (13, Response 503 NotJson)])
      (noon 14) (worldOf [(lastSyncedBucketKey, DateText 10), (moviesBucketKey, stringify [])]) =
     (Inr (),
      \<lparr>bucket = map_of [(lastSyncedBucketKey, DateText 12), (moviesBucketKey, stringify [mA])],
       trace = [Get lastSyncedBucketKey, Get moviesBucketKey, Fetch (11 * DAY), Fetch (12 * DAY),
                Put moviesBucketKey (stringify [mA]), Put lastSyncedBucketKey (DateText 12),
                Fetch (13 * DAY)]\<rparr>)"
    by (simp add: run_defs)
  have window: "fst (getNextSyncDates (noon 14)
      (worldOf [(lastSyncedBucketKey, DateText 10), (moviesBucketKey, stringify [])])) =
     Inr ([] @ 11 * DAY # [] @ 12 * DAY # [13 * DAY])"
    by (simp add: run_defs)
  have failed: "remoteOf [(11, Response 500 NotJson),
        (12, Response 200 (JsonBody (JArr [movieJson mA]))), (13, Response 503 NotJson)] (11 * DAY) =
      Response 500 NotJson" "\<not> ok 500" "500 \<noteq> (404::nat)"
    by (simp_all add: remoteOf_def ok_def)
  have later: "readResponse (remoteOf [(11, Response 500 NotJson),
        (12, Response 200 (JsonBody (JArr [movieJson mA]))), (13, Response 503 NotJson)] (12 * DAY)) =
      Inr (Some [mA])"
    by (simp add: remoteOf_def ok_def)
  have rest: "\<forall>x\<in>set [13 * DAY]. readResponse (remoteOf [(11, Response 500 NotJson),
        (12, Response 200 (JsonBody (JArr [movieJson mA]))), (13, Response 503 NotJson)] x) = Inr None"
    by (simp add: remoteOf_def ok_def)
  have returned: "fst (syncMovies
      (remoteOf [(11, Response 500 NotJson), (12, Response 200 (JsonBody (JArr [movieJson mA]))),
                 (13, Response 503 NotJson)])
      (noon 14) (worldOf [(lastSyncedBucketKey, DateText 10), (moviesBucketKey, stringify [])])) = Inr ()"
    by (simp only: run fst_conv)
  from skipped_day_never_refetched [OF window failed later rest returned] window run
  show ?thesis by blast
qed

end
